theory Spec2Isabelle
  imports Complex_Main "HOL-Library.Signed_Division"
begin

section \<open>Pong: a shallow embedding of pong.py\<close>

text \<open>
  The program is a single Python module built on pygame. Its entities are
  \<^verbatim>\<open>pygame.Rect\<close> objects, whose four coordinates are C integers; velocities
  are Python numbers (ints or floats). In this development a rectangle coordinate is an
  \<^typ>\<open>int\<close> (the bounds of a C \<^verbatim>\<open>int\<close> are not modelled: the game stays far from
  them), a velocity is a \<^typ>\<open>real\<close> (floating-point rounding is idealised away: every
  arithmetic step is exact), and the module-level random generator is a stream of draws
  carried in the program state.
\<close>

subsection \<open>Config (pong.py, lines 9--16)\<close>

definition WIDTH :: int where "WIDTH = 900"
definition HEIGHT :: int where "HEIGHT = 600"
definition MARGIN :: int where "MARGIN = 20"
definition PADDLE_W :: int where "PADDLE_W = 14"
definition PADDLE_H :: int where "PADDLE_H = 110"
definition BALL_SIZE :: int where "BALL_SIZE = 14"
definition PADDLE_SPEED :: int where "PADDLE_SPEED = 7"
definition BALL_SPEED :: int where "BALL_SPEED = 6"
definition WIN_SCORE :: int where "WIN_SCORE = 11"

subsection \<open>pygame.Rect\<close>

text \<open>
  The part of \<^verbatim>\<open>pygame.Rect\<close> the program uses. The derived attributes are those of
  pygame: \<^verbatim>\<open>right = x + w\<close>, \<^verbatim>\<open>bottom = y + h\<close>, \<^verbatim>\<open>centery = y + h / 2\<close> with C's
  truncating integer division, and assigning to a derived attribute moves the rectangle
  without resizing it.
\<close>

record rect =
  rect_x :: int
  rect_y :: int
  rect_w :: int
  rect_h :: int

definition rect_left :: "'a rect_scheme \<Rightarrow> int" where
  "rect_left r = rect_x r"

definition rect_top :: "'a rect_scheme \<Rightarrow> int" where
  "rect_top r = rect_y r"

definition rect_right :: "'a rect_scheme \<Rightarrow> int" where
  "rect_right r = rect_x r + rect_w r"

definition rect_bottom :: "'a rect_scheme \<Rightarrow> int" where
  "rect_bottom r = rect_y r + rect_h r"

definition rect_centerx :: "'a rect_scheme \<Rightarrow> int" where
  "rect_centerx r = rect_x r + rect_w r sdiv 2"

definition rect_centery :: "'a rect_scheme \<Rightarrow> int" where
  "rect_centery r = rect_y r + rect_h r sdiv 2"

definition set_left :: "'a rect_scheme \<Rightarrow> int \<Rightarrow> 'a rect_scheme" where
  "set_left r v = r\<lparr>rect_x := v\<rparr>"

definition set_right :: "'a rect_scheme \<Rightarrow> int \<Rightarrow> 'a rect_scheme" where
  "set_right r v = r\<lparr>rect_x := v - rect_w r\<rparr>"

definition set_top :: "'a rect_scheme \<Rightarrow> int \<Rightarrow> 'a rect_scheme" where
  "set_top r v = r\<lparr>rect_y := v\<rparr>"

definition set_bottom :: "'a rect_scheme \<Rightarrow> int \<Rightarrow> 'a rect_scheme" where
  "set_bottom r v = r\<lparr>rect_y := v - rect_h r\<rparr>"

definition set_center :: "'a rect_scheme \<Rightarrow> int \<times> int \<Rightarrow> 'a rect_scheme" where
  "set_center r c =
     r\<lparr>rect_x := fst c - rect_w r sdiv 2, rect_y := snd c - rect_h r sdiv 2\<rparr>"

text \<open>
  \<^verbatim>\<open>Rect.colliderect\<close>: rectangles of zero width or height collide with nothing;
  otherwise the spans must overlap strictly on both axes (touching edges do not collide).
\<close>

definition colliderect :: "'a rect_scheme \<Rightarrow> 'b rect_scheme \<Rightarrow> bool" where
  "colliderect a b =
     (if rect_w a = 0 \<or> rect_h a = 0 \<or> rect_w b = 0 \<or> rect_h b = 0 then False
      else min (rect_x a) (rect_x a + rect_w a) < max (rect_x b) (rect_x b + rect_w b)
         \<and> min (rect_y a) (rect_y a + rect_h a) < max (rect_y b) (rect_y b + rect_h b)
         \<and> max (rect_x a) (rect_x a + rect_w a) > min (rect_x b) (rect_x b + rect_w b)
         \<and> max (rect_y a) (rect_y a + rect_h a) > min (rect_y b) (rect_y b + rect_h b))"

text \<open>
  Storing a Python float into a coordinate converts it to a C \<^verbatim>\<open>int\<close> by rounding to the
  nearest integer, halves away from zero (pygame 2.6). (Storing a Python int stores it
  unchanged, which is the same function on an integral argument.)
\<close>

definition pg_int :: "real \<Rightarrow> int" where
  "pg_int v = (if 0 \<le> v then \<lfloor>v + 1 / 2\<rfloor> else \<lceil>v - 1 / 2\<rceil>)"

subsection \<open>Random draws\<close>

text \<open>
  One call of \<^verbatim>\<open>Ball.reset\<close> draws \<^verbatim>\<open>random.choice([-1, 1])\<close> and then
  \<^verbatim>\<open>random.uniform(-0.8, 0.8)\<close>. A draw records both results; \<open>valid_draw\<close> is the
  range the library promises for them.
\<close>

record draw =
  choice :: int
  uniform :: real

definition valid_draw :: "draw \<Rightarrow> bool" where
  "valid_draw d = ((choice d = -1 \<or> choice d = 1) \<and> -0.8 \<le> uniform d \<and> uniform d \<le> 0.8)"

subsection \<open>Objects (pong.py, lines 26--55)\<close>

datatype error = ZeroDivisionError

record paddle = rect +
  vel :: real

record ball = rect +
  vx :: real
  vy :: real

definition Paddle :: "int \<Rightarrow> int \<Rightarrow> paddle" where
  "Paddle px py = \<lparr>rect_x = px, rect_y = py, rect_w = PADDLE_W, rect_h = PADDLE_H, vel = 0\<rparr>"

definition Paddle_update :: "paddle \<Rightarrow> 'a rect_scheme \<Rightarrow> paddle" where
  "Paddle_update p bounds =
     (let p1 = p\<lparr>rect_y := pg_int (real_of_int (rect_y p) + vel p)\<rparr>;
          p2 = (if rect_top p1 < rect_top bounds then set_top p1 (rect_top bounds) else p1);
          p3 = (if rect_bottom p2 > rect_bottom bounds
                then set_bottom p2 (rect_bottom bounds) else p2)
      in p3)"

definition Ball_reset :: "ball \<Rightarrow> int \<times> int \<Rightarrow> draw \<Rightarrow> error + ball" where
  "Ball_reset b center d =
     (let b1 = set_center b center;
          dir_x = real_of_int (choice d);
          dir_y = uniform d;
          speed = real_of_int BALL_SPEED;
          mag = sqrt (dir_x\<^sup>2 + dir_y\<^sup>2)
      in if mag = 0 then Inl ZeroDivisionError
         else Inr (b1\<lparr>vx := speed * (dir_x / mag), vy := speed * (dir_y / mag)\<rparr>))"

text \<open>
  The constructor \<^verbatim>\<open>Ball(x, y)\<close> builds the rectangle and calls
  \<^verbatim>\<open>self.reset(center=(x, y))\<close>; the velocity fields do not exist before that call, so
  their value in the rectangle handed to \<open>Ball_reset\<close> is irrelevant.
\<close>

definition Ball :: "int \<Rightarrow> int \<Rightarrow> draw \<Rightarrow> error + ball" where
  "Ball bx by d =
     Ball_reset \<lparr>rect_x = bx, rect_y = by, rect_w = BALL_SIZE, rect_h = BALL_SIZE,
                 vx = 0, vy = 0\<rparr> (bx, by) d"

definition Ball_update :: "ball \<Rightarrow> ball" where
  "Ball_update b =
     (let b1 = b\<lparr>rect_x := pg_int (real_of_int (rect_x b) + vx b)\<rparr>
      in b1\<lparr>rect_y := pg_int (real_of_int (rect_y b1) + vy b1)\<rparr>)"

subsection \<open>Helpers (pong.py, lines 74--123)\<close>

definition ball_paddle_collision :: "ball \<Rightarrow> paddle \<Rightarrow> error + ball" where
  "ball_paddle_collision b p =
     (if colliderect b p then
        (let b1 = (if vx b < 0 then set_left b (rect_right p) else set_right b (rect_left p));
             offset = real_of_int (rect_centery b1 - rect_centery p) / (real_of_int PADDLE_H / 2);
             vx1 = vx b1 * (-1);
             vy1 = (real_of_int BALL_SPEED + 0.5) * offset;
             speed = sqrt (vx1\<^sup>2 + vy1\<^sup>2)
         in if speed = 0 then Inl ZeroDivisionError
            else (let factor = real_of_int BALL_SPEED / speed
                  in Inr (b1\<lparr>vx := vx1 * factor, vy := vy1 * factor\<rparr>)))
      else Inr b)"

definition clamp_ball_vertical :: "ball \<Rightarrow> 'a rect_scheme \<Rightarrow> ball" where
  "clamp_ball_vertical b bounds =
     (if rect_top b \<le> rect_top bounds then
        (set_top b (rect_top bounds))\<lparr>vy := vy b * (-1)\<rparr>
      else if rect_bottom b \<ge> rect_bottom bounds then
        (set_bottom b (rect_bottom bounds))\<lparr>vy := vy b * (-1)\<rparr>
      else b)"

definition ai_move :: "paddle \<Rightarrow> ball \<Rightarrow> paddle" where
  "ai_move p b =
     (let target = rect_centery b; band = 12
      in if rect_centery p < target - band then p\<lparr>vel := real_of_int PADDLE_SPEED * 0.9\<rparr>
         else if rect_centery p > target + band then p\<lparr>vel := - real_of_int PADDLE_SPEED * 0.9\<rparr>
         else p\<lparr>vel := 0\<rparr>)"

subsection \<open>Main (pong.py, lines 128--250)\<close>

text \<open>
  The local variables of \<^verbatim>\<open>main\<close> that the simulation reads or writes, together with
  the state of the random generator. Rendering and sound write none of them (all three
  sound objects are \<^verbatim>\<open>None\<close>), so they are left out.
\<close>

record game =
  left :: paddle
  right :: paddle
  ball :: ball
  score_l :: int
  score_r :: int
  running :: bool
  paused :: bool
  show_help :: bool
  rng :: "nat \<Rightarrow> draw"

datatype key = K_ESCAPE | K_SPACE | K_r | K_h | K_other

datatype event = QUIT | KEYDOWN key | OTHER

text \<open>The snapshot returned by \<^verbatim>\<open>pygame.key.get_pressed()\<close>, for the keys that are read.\<close>

record pressed =
  K_s :: bool
  K_w :: bool

record input =
  events :: "event list"
  keys :: pressed

definition play_area :: rect where
  "play_area = \<lparr>rect_x = MARGIN, rect_y = MARGIN,
                 rect_w = WIDTH - 2 * MARGIN, rect_h = HEIGHT - 2 * MARGIN\<rparr>"

definition next_draw :: "game \<Rightarrow> draw \<times> game" where
  "next_draw g = (rng g 0, g\<lparr>rng := (\<lambda>n. rng g (Suc n))\<rparr>)"

text \<open>\<^verbatim>\<open>ball.reset((WIDTH//2, HEIGHT//2))\<close> with the next draw of the generator.\<close>

definition reset_ball :: "game \<Rightarrow> error + game" where
  "reset_ball g =
     (let (d, g1) = next_draw g
      in case Ball_reset (ball g1) (WIDTH div 2, HEIGHT div 2) d of
           Inl e \<Rightarrow> Inl e
         | Inr b \<Rightarrow> Inr (g1\<lparr>ball := b\<rparr>))"

text \<open>The entities and flags before the first frame (lines 149--157).\<close>

definition init :: "(nat \<Rightarrow> draw) \<Rightarrow> error + game" where
  "init r =
     (case Ball (WIDTH div 2 - BALL_SIZE div 2) (HEIGHT div 2 - BALL_SIZE div 2) (r 0) of
        Inl e \<Rightarrow> Inl e
      | Inr b \<Rightarrow> Inr \<lparr>left = Paddle (MARGIN + 18) (HEIGHT div 2 - PADDLE_H div 2),
                      right = Paddle (WIDTH - MARGIN - 18 - PADDLE_W) (HEIGHT div 2 - PADDLE_H div 2),
                      ball = b, score_l = 0, score_r = 0,
                      running = True, paused = False, show_help = True,
                      rng = (\<lambda>n. r (Suc n))\<rparr>)"

text \<open>One event of the event loop (lines 163--176).\<close>

fun handle_event :: "game \<Rightarrow> event \<Rightarrow> error + game" where
  "handle_event g QUIT = Inr (g\<lparr>running := False\<rparr>)"
| "handle_event g (KEYDOWN K_ESCAPE) = Inr (g\<lparr>running := False\<rparr>)"
| "handle_event g (KEYDOWN K_SPACE) = Inr (g\<lparr>paused := \<not> paused g\<rparr>)"
| "handle_event g (KEYDOWN K_r) = reset_ball (g\<lparr>score_l := 0, score_r := 0\<rparr>)"
| "handle_event g (KEYDOWN K_h) = Inr (g\<lparr>show_help := \<not> show_help g\<rparr>)"
| "handle_event g (KEYDOWN K_other) = Inr g"
| "handle_event g OTHER = Inr g"

fun handle_events :: "game \<Rightarrow> event list \<Rightarrow> error + game" where
  "handle_events g [] = Inr g"
| "handle_events g (e # es) =
     (case handle_event g e of Inl err \<Rightarrow> Inl err | Inr g1 \<Rightarrow> handle_events g1 es)"

text \<open>Paddle velocities for the frame (lines 179--187); \<^verbatim>\<open>human_right\<close> is \<^verbatim>\<open>False\<close>.\<close>

definition controls :: "game \<Rightarrow> pressed \<Rightarrow> game" where
  "controls g ks =
     (let g1 = g\<lparr>left := (left g)\<lparr>vel :=
                 real_of_int ((of_bool (K_s ks) - of_bool (K_w ks)) * PADDLE_SPEED)\<rparr>\<rparr>
      in g1\<lparr>right := ai_move (right g1) (ball g1)\<rparr>)"

text \<open>The scoring checks (lines 199--215), both evaluated in order.\<close>

definition scoring :: "game \<Rightarrow> error + game" where
  "scoring g =
     (case (if rect_left (ball g) \<le> rect_left play_area - 4
            then reset_ball (g\<lparr>score_r := score_r g + 1\<rparr>) else Inr g) of
        Inl e \<Rightarrow> Inl e
      | Inr g1 \<Rightarrow>
          (if rect_right (ball g1) \<ge> rect_right play_area + 4
           then reset_ball (g1\<lparr>score_l := score_l g1 + 1\<rparr>) else Inr g1))"

text \<open>The body of \<^verbatim>\<open>if not paused:\<close> (lines 190--215).\<close>

definition update_step :: "game \<Rightarrow> error + game" where
  "update_step g =
     (let g1 = g\<lparr>left := Paddle_update (left g) play_area\<rparr>;
          g2 = g1\<lparr>right := Paddle_update (right g1) play_area\<rparr>;
          b1 = Ball_update (ball g2);
          b2 = clamp_ball_vertical b1 play_area
      in case ball_paddle_collision b2 (left g2) of
           Inl e \<Rightarrow> Inl e
         | Inr b3 \<Rightarrow>
             (case ball_paddle_collision b3 (right g2) of
                Inl e \<Rightarrow> Inl e
              | Inr b4 \<Rightarrow> scoring (g2\<lparr>ball := b4\<rparr>)))"

text \<open>The win banner (lines 241--242) pauses the game.\<close>

definition win_banner :: "game \<Rightarrow> game" where
  "win_banner g =
     (if score_l g \<ge> WIN_SCORE \<or> score_r g \<ge> WIN_SCORE then g\<lparr>paused := True\<rparr> else g)"

text \<open>One iteration of \<^verbatim>\<open>while running:\<close> (lines 159--247).\<close>

definition frame :: "game \<Rightarrow> input \<Rightarrow> error + game" where
  "frame g inp =
     (case handle_events g (events inp) of
        Inl e \<Rightarrow> Inl e
      | Inr g1 \<Rightarrow>
          (let g2 = controls g1 (keys inp)
           in case (if \<not> paused g2 then update_step g2 else Inr g2) of
                Inl e \<Rightarrow> Inl e
              | Inr g3 \<Rightarrow> Inr (win_banner g3)))"

text \<open>
  The program has no state variable; the three states of the game flow are read off the
  scores and the pause flag, the winner as the banner chooses it (line 243).
\<close>

datatype side = Left | Right

datatype game_state = Playing | Paused | Won side

definition state_of :: "game \<Rightarrow> game_state" where
  "state_of g =
     (if score_l g \<ge> WIN_SCORE \<or> score_r g \<ge> WIN_SCORE
      then Won (if score_l g \<ge> WIN_SCORE then Left else Right)
      else if paused g then Paused else Playing)"

subsection \<open>Speed, reachable balls and reachable games\<close>

text \<open>The speed the specification measures: the Euclidean norm of the velocity.\<close>

definition speed_of :: "ball \<Rightarrow> real" where
  "speed_of b = sqrt ((vx b)\<^sup>2 + (vy b)\<^sup>2)"

text \<open>
  Every ball state the program can produce. A ball is only ever written by
  \<^verbatim>\<open>Ball.reset\<close> (from the constructor, the R key and the scoring checks),
  \<^verbatim>\<open>Ball.update\<close>, \<^verbatim>\<open>clamp_ball_vertical\<close> against the play area and
  \<^verbatim>\<open>ball_paddle_collision\<close>; the centre handed to a reset and the paddle handed to a
  collision are left arbitrary, so the set over-approximates the balls of every run.
\<close>

inductive reach_ball :: "ball \<Rightarrow> bool" where
  reset: "rect_w b0 = BALL_SIZE \<Longrightarrow> rect_h b0 = BALL_SIZE \<Longrightarrow> valid_draw d \<Longrightarrow>
          Ball_reset b0 c d = Inr b \<Longrightarrow> reach_ball b"
| update: "reach_ball b \<Longrightarrow> reach_ball (Ball_update b)"
| wall: "reach_ball b \<Longrightarrow> reach_ball (clamp_ball_vertical b play_area)"
| paddle: "reach_ball b \<Longrightarrow> ball_paddle_collision b p = Inr b' \<Longrightarrow> reach_ball b'"

text \<open>
  Every game state at a frame boundary: the state built before the loop, and the result of
  a frame started while \<^verbatim>\<open>running\<close> holds, for any events and keys.
\<close>

inductive reachable :: "game \<Rightarrow> bool" where
  start: "(\<And>n. valid_draw (r n)) \<Longrightarrow> init r = Inr g \<Longrightarrow> reachable g"
| step: "reachable g \<Longrightarrow> running g \<Longrightarrow> frame g inp = Inr g' \<Longrightarrow> reachable g'"

text \<open>The velocity invariant: the speed budget is met and the ball moves horizontally.\<close>

definition vel_ok :: "ball \<Rightarrow> bool" where
  "vel_ok b = ((vx b)\<^sup>2 + (vy b)\<^sup>2 = (real_of_int BALL_SPEED)\<^sup>2 \<and> vx b \<noteq> 0)"

text \<open>The invariant of the frame loop: the ball is a reachable ball and every draw still
  to come is in range.\<close>

definition game_inv :: "game \<Rightarrow> bool" where
  "game_inv g = (reach_ball (ball g) \<and> (\<forall>n. valid_draw (rng g n)))"

text \<open>
  The geometry of the paddles that the loop keeps: the horizontal position and the size the
  constructor calls of \<^verbatim>\<open>main\<close> give them, and a place within the vertical span of the
  play area.
\<close>

definition within_area :: "'a rect_scheme \<Rightarrow> bool" where
  "within_area r = (rect_top play_area \<le> rect_top r \<and> rect_bottom r \<le> rect_bottom play_area)"

definition paddles_inv :: "game \<Rightarrow> bool" where
  "paddles_inv g =
     (rect_x (left g) = MARGIN + 18 \<and> rect_w (left g) = PADDLE_W \<and> rect_h (left g) = PADDLE_H
      \<and> rect_x (right g) = WIDTH - MARGIN - 18 - PADDLE_W
      \<and> rect_w (right g) = PADDLE_W \<and> rect_h (right g) = PADDLE_H
      \<and> within_area (left g) \<and> within_area (right g))"

subsection \<open>Concrete states\<close>

text \<open>
  Inputs at which the theorems below are evaluated: a draw, the ball that
  \<^verbatim>\<open>reset((450, 300))\<close> builds from it, and the game that \<^verbatim>\<open>main\<close> builds before
  its first frame when every draw of the generator is that draw.
\<close>

definition ex_draw :: draw where
  "ex_draw = \<lparr>choice = 1, uniform = 3 / 4\<rparr>"

definition ex_ball :: ball where
  "ex_ball = \<lparr>rect_x = 443, rect_y = 293, rect_w = 14, rect_h = 14, vx = 24 / 5, vy = 18 / 5\<rparr>"

definition ex_game :: game where
  "ex_game = \<lparr>left = Paddle 38 245, right = Paddle 848 245,
     ball = \<lparr>rect_x = 436, rect_y = 286, rect_w = 14, rect_h = 14, vx = 24 / 5, vy = 18 / 5\<rparr>,
     score_l = 0, score_r = 0, running = True, paused = False, show_help = True,
     rng = (\<lambda>n. ex_draw)\<rparr>"





definition wall_ball :: ball where
  "wall_ball = \<lparr>rect_x = 22, rect_y = 24, rect_w = 14, rect_h = 14,
                 vx = - (24 / 5), vy = - (18 / 5)\<rparr>"

definition hit_ball :: ball where
  "hit_ball = \<lparr>rect_x = 43, rect_y = 293, rect_w = 14, rect_h = 14, vx = - (24 / 5), vy = 18 / 5\<rparr>"

text \<open>
  Games at a frame boundary: one the right side has won 3--11 (the ball as the reset after
  the last point left it), one whose ball, moving left past the left paddle, is about to leave
  the play area, and one whose ball is about to hit the top wall left of the left paddle. No
  key is held.
\<close>

definition won_game :: game where
  "won_game = ex_game\<lparr>ball := ex_ball, score_l := 3, score_r := 11, paused := True\<rparr>"

definition goal_game :: game where
  "goal_game = ex_game\<lparr>left := Paddle 38 400,
                        ball := \<lparr>rect_x = 18, rect_y = 293, rect_w = 14, rect_h = 14,
                                   vx = - 6, vy = 0\<rparr>\<rparr>"

definition wall_game :: game where
  "wall_game = ex_game\<lparr>ball := wall_ball\<rparr>"

definition no_keys :: pressed where
  "no_keys = \<lparr>K_s = False, K_w = False\<rparr>"

section \<open>Properties\<close>

lemmas config = WIDTH_def HEIGHT_def MARGIN_def PADDLE_W_def PADDLE_H_def
  BALL_SIZE_def PADDLE_SPEED_def BALL_SPEED_def WIN_SCORE_def

subsection \<open>Rounding\<close>

lemma pg_int_of_int: "pg_int (real_of_int n) = n"
proof (cases "0 \<le> real_of_int n")
  case True
  have "\<lfloor>real_of_int n + 1 / 2\<rfloor> = n" by linarith
  then show ?thesis using True by (simp add: pg_int_def)
next
  case False
  have "\<lceil>real_of_int n - 1 / 2\<rceil> = n" by linarith
  then show ?thesis using False by (simp add: pg_int_def)
qed



subsection \<open>Normalisation keeps the speed budget\<close>

lemma mag_ge_1:
  assumes "valid_draw d"
  shows "1 \<le> sqrt ((real_of_int (choice d))\<^sup>2 + (uniform d)\<^sup>2)"
proof -
  from assms have "(real_of_int (choice d))\<^sup>2 = 1"
    unfolding valid_draw_def by auto
  then have "1 \<le> (real_of_int (choice d))\<^sup>2 + (uniform d)\<^sup>2" by simp
  then show ?thesis by simp
qed

lemma scale_norm:
  fixes a b m s :: real
  assumes "m \<noteq> 0" and "m\<^sup>2 = a\<^sup>2 + b\<^sup>2"
  shows "(s * (a / m))\<^sup>2 + (s * (b / m))\<^sup>2 = s\<^sup>2"
proof -
  have "m\<^sup>2 \<noteq> 0" using assms(1) by simp
  then have one: "(a\<^sup>2 + b\<^sup>2) / m\<^sup>2 = 1" unfolding assms(2)[symmetric] by simp
  have "(s * (a / m))\<^sup>2 + (s * (b / m))\<^sup>2 = s\<^sup>2 * ((a\<^sup>2 + b\<^sup>2) / m\<^sup>2)"
    by (simp add: power_mult_distrib power_divide add_divide_distrib distrib_left)
  also have "\<dots> = s\<^sup>2" unfolding one by simp
  finally show ?thesis .
qed

lemma scale_norm_factor:
  fixes a b m s :: real
  assumes "m \<noteq> 0" and "m\<^sup>2 = a\<^sup>2 + b\<^sup>2"
  shows "(a * (s / m))\<^sup>2 + (b * (s / m))\<^sup>2 = s\<^sup>2"
proof -
  have "a * (s / m) = s * (a / m)" and "b * (s / m) = s * (b / m)" by simp_all
  then show ?thesis using scale_norm[OF assms, of s] by (simp only:)
qed

lemma Ball_reset_ok:
  assumes "valid_draw d"
  shows "Ball_reset b c d =
           Inr ((set_center b c)\<lparr>
             vx := 6 * (real_of_int (choice d) / sqrt ((real_of_int (choice d))\<^sup>2 + (uniform d)\<^sup>2)),
             vy := 6 * (uniform d / sqrt ((real_of_int (choice d))\<^sup>2 + (uniform d)\<^sup>2))\<rparr>)"
proof -
  have "sqrt ((real_of_int (choice d))\<^sup>2 + (uniform d)\<^sup>2) \<noteq> 0"
    using mag_ge_1[OF assms] by linarith
  then show ?thesis
    unfolding Ball_reset_def Let_def BALL_SPEED_def by (simp del: real_sqrt_eq_zero_cancel_iff)
qed

lemma Ball_reset_vel_ok:
  assumes "valid_draw d" and "Ball_reset b c d = Inr b'"
  shows "vel_ok b'"
proof -
  let ?m = "sqrt ((real_of_int (choice d))\<^sup>2 + (uniform d)\<^sup>2)"
  have m: "?m \<noteq> 0" using mag_ge_1[OF assms(1)] by linarith
  have m2: "?m\<^sup>2 = (real_of_int (choice d))\<^sup>2 + (uniform d)\<^sup>2" by simp
  have c: "real_of_int (choice d) \<noteq> 0" using assms(1) unfolding valid_draw_def by auto
  have b': "b' = (set_center b c)\<lparr>vx := 6 * (real_of_int (choice d) / ?m),
                                  vy := 6 * (uniform d / ?m)\<rparr>"
    using Ball_reset_ok[OF assms(1), of b c] assms(2) by simp
  have "(vx b')\<^sup>2 + (vy b')\<^sup>2 = 6\<^sup>2"
    unfolding b' using scale_norm[OF m m2, of 6] by simp
  moreover have "vx b' \<noteq> 0" unfolding b' using m c by simp
  ultimately show ?thesis by (simp add: vel_ok_def BALL_SPEED_def)
qed

lemma Ball_reset_rect:
  assumes "Ball_reset b c d = Inr b'"
  shows "rect_w b' = rect_w b \<and> rect_h b' = rect_h b
       \<and> rect_x b' = fst c - rect_w b sdiv 2 \<and> rect_y b' = snd c - rect_h b sdiv 2"
  using assms by (auto simp: Ball_reset_def Let_def set_center_def split: if_splits)

lemma Ball_update_vel: "vx (Ball_update b) = vx b \<and> vy (Ball_update b) = vy b
   \<and> rect_w (Ball_update b) = rect_w b \<and> rect_h (Ball_update b) = rect_h b"
  by (simp add: Ball_update_def Let_def)

lemma clamp_vel: "vx (clamp_ball_vertical b bounds) = vx b
   \<and> (vy (clamp_ball_vertical b bounds) = vy b \<or> vy (clamp_ball_vertical b bounds) = - vy b)
   \<and> rect_w (clamp_ball_vertical b bounds) = rect_w b
   \<and> rect_h (clamp_ball_vertical b bounds) = rect_h b
   \<and> rect_x (clamp_ball_vertical b bounds) = rect_x b"
  by (simp add: clamp_ball_vertical_def set_top_def set_bottom_def)

lemma collision_ok:
  assumes "vel_ok b"
  shows "\<exists>b'. ball_paddle_collision b p = Inr b' \<and> vel_ok b'
           \<and> rect_w b' = rect_w b \<and> rect_h b' = rect_h b \<and> rect_y b' = rect_y b"
proof (cases "colliderect b p")
  case False
  then show ?thesis using assms by (simp add: ball_paddle_collision_def)
next
  case True
  define b1 where "b1 = (if vx b < 0 then set_left b (rect_right p) else set_right b (rect_left p))"
  define offset where
    "offset = real_of_int (rect_centery b1 - rect_centery p) / (real_of_int PADDLE_H / 2)"
  define vx1 where "vx1 = vx b1 * (-1)"
  define vy1 where "vy1 = (real_of_int BALL_SPEED + 0.5) * offset"
  define speed where "speed = sqrt (vx1\<^sup>2 + vy1\<^sup>2)"
  have vxb1: "vx b1 = vx b" by (simp add: b1_def set_left_def set_right_def)
  have "vx1 \<noteq> 0" using assms by (simp add: vx1_def vxb1 vel_ok_def)
  then have "0 < vx1\<^sup>2 + vy1\<^sup>2" by (simp add: sum_power2_gt_zero_iff)
  then have sp: "0 < speed" by (simp add: speed_def)
  then have sp0: "speed \<noteq> 0" by simp
  have sp2: "speed\<^sup>2 = vx1\<^sup>2 + vy1\<^sup>2" by (simp add: speed_def)
  define b' where "b' = b1\<lparr>vx := vx1 * (real_of_int BALL_SPEED / speed),
                            vy := vy1 * (real_of_int BALL_SPEED / speed)\<rparr>"
  have res: "ball_paddle_collision b p = Inr b'"
    using True sp0
    by (simp add: ball_paddle_collision_def Let_def b'_def speed_def vy1_def vx1_def
        offset_def b1_def del: real_sqrt_eq_zero_cancel_iff)
  have "(vx b')\<^sup>2 + (vy b')\<^sup>2 = (real_of_int BALL_SPEED)\<^sup>2"
    using scale_norm_factor[OF sp0 sp2, of "real_of_int BALL_SPEED"] by (simp add: b'_def)
  moreover have "vx b' \<noteq> 0" using \<open>vx1 \<noteq> 0\<close> sp0 by (simp add: b'_def BALL_SPEED_def)
  ultimately have "vel_ok b'" by (simp add: vel_ok_def)
  moreover have "rect_w b' = rect_w b \<and> rect_h b' = rect_h b \<and> rect_y b' = rect_y b"
    by (simp add: b'_def b1_def set_left_def set_right_def)
  ultimately show ?thesis using res by blast
qed

subsection \<open>Invariants of the ball\<close>

lemma vel_ok_speed: "vel_ok b \<Longrightarrow> speed_of b = real_of_int BALL_SPEED"
  by (simp add: vel_ok_def speed_of_def BALL_SPEED_def)

lemma Ball_update_vel_ok: "vel_ok b \<Longrightarrow> vel_ok (Ball_update b)"
  by (simp add: vel_ok_def Ball_update_vel)

lemma clamp_vel_ok: "vel_ok b \<Longrightarrow> vel_ok (clamp_ball_vertical b bounds)"
  by (simp add: vel_ok_def clamp_ball_vertical_def set_top_def set_bottom_def)

lemma reach_ball_inv:
  "reach_ball b \<Longrightarrow> vel_ok b \<and> rect_w b = BALL_SIZE \<and> rect_h b = BALL_SIZE"
proof (induction rule: reach_ball.induct)
  case (reset b0 d c b)
  then show ?case using Ball_reset_vel_ok Ball_reset_rect by metis
next
  case (update b)
  then show ?case by (simp add: Ball_update_vel_ok Ball_update_vel)
next
  case (wall b)
  then show ?case by (simp add: clamp_vel_ok clamp_vel)
next
  case (paddle b p b')
  then show ?case using collision_ok[of b p] by auto
qed

lemma sqrt_25_16: "sqrt (25 / 16) = 5 / 4"
  by (rule real_sqrt_unique) (simp_all add: power2_eq_square)

lemma Paddle_update_within:
  assumes "rect_h p \<le> rect_h bounds"
  shows "rect_top bounds \<le> rect_top (Paddle_update p bounds)
       \<and> rect_bottom (Paddle_update p bounds) \<le> rect_bottom bounds"
  using assms
  by (auto simp: Paddle_update_def Let_def rect_top_def rect_bottom_def set_top_def set_bottom_def)

lemma clamp_within:
  assumes "rect_h b \<le> rect_h bounds"
    and "rect_top b \<le> rect_top bounds \<or> rect_bottom b \<ge> rect_bottom bounds"
  shows "rect_top bounds \<le> rect_top (clamp_ball_vertical b bounds)
       \<and> rect_bottom (clamp_ball_vertical b bounds) \<le> rect_bottom bounds
       \<and> vy (clamp_ball_vertical b bounds) = - vy b
       \<and> vx (clamp_ball_vertical b bounds) = vx b
       \<and> rect_x (clamp_ball_vertical b bounds) = rect_x b"
  using assms
  by (auto simp: clamp_ball_vertical_def rect_top_def rect_bottom_def set_top_def set_bottom_def)

subsection \<open>Invariants of the frame loop\<close>

lemma reset_ball_ok:
  assumes "rect_w (ball g) = BALL_SIZE" and "rect_h (ball g) = BALL_SIZE"
    and "valid_draw (rng g 0)"
  shows "\<exists>b. Ball_reset (ball g) (WIDTH div 2, HEIGHT div 2) (rng g 0) = Inr b
           \<and> reset_ball g = Inr (g\<lparr>rng := (\<lambda>n. rng g (Suc n)), ball := b\<rparr>)
           \<and> reach_ball b"
proof -
  obtain b where b: "Ball_reset (ball g) (WIDTH div 2, HEIGHT div 2) (rng g 0) = Inr b"
    using Ball_reset_ok[OF assms(3)] by blast
  have "reach_ball b" using reach_ball.reset[OF assms(1,2,3) b] .
  moreover have "reset_ball g = Inr (g\<lparr>rng := (\<lambda>n. rng g (Suc n)), ball := b\<rparr>)"
    using b by (simp add: reset_ball_def next_draw_def)
  ultimately show ?thesis using b by blast
qed

lemma reset_ball_inv:
  assumes "game_inv g"
  shows "\<exists>g'. reset_ball g = Inr g' \<and> game_inv g'
     \<and> left g' = left g \<and> right g' = right g \<and> score_l g' = score_l g \<and> score_r g' = score_r g
     \<and> running g' = running g \<and> paused g' = paused g \<and> show_help g' = show_help g"
proof -
  from assms have rb: "reach_ball (ball g)" and vd: "\<forall>n. valid_draw (rng g n)"
    by (simp_all add: game_inv_def)
  from reach_ball_inv[OF rb] have wh: "rect_w (ball g) = BALL_SIZE" "rect_h (ball g) = BALL_SIZE"
    by simp_all
  from vd have "valid_draw (rng g 0)" by blast
  from reset_ball_ok[OF wh this] obtain b where
    "reset_ball g = Inr (g\<lparr>rng := (\<lambda>n. rng g (Suc n)), ball := b\<rparr>)" "reach_ball b" by blast
  then show ?thesis using vd by (simp add: game_inv_def)
qed

lemma game_inv_fields:
  "game_inv g \<Longrightarrow> ball g' = ball g \<Longrightarrow> rng g' = rng g \<Longrightarrow> game_inv g'"
  by (simp add: game_inv_def)

lemma handle_event_inv:
  assumes "game_inv g"
  shows "\<exists>g'. handle_event g e = Inr g' \<and> game_inv g'"
proof (cases e)
  case QUIT
  then show ?thesis using assms by (simp add: game_inv_def)
next
  case (KEYDOWN k)
  show ?thesis
  proof (cases k)
    case K_r
    have "game_inv (g\<lparr>score_l := 0, score_r := 0\<rparr>)" using assms by (simp add: game_inv_def)
    from reset_ball_inv[OF this] show ?thesis using KEYDOWN K_r by auto
  qed (use KEYDOWN assms in \<open>simp_all add: game_inv_def\<close>)
next
  case OTHER
  then show ?thesis using assms by simp
qed

lemma handle_events_inv:
  "game_inv g \<Longrightarrow> \<exists>g'. handle_events g es = Inr g' \<and> game_inv g'"
proof (induction es arbitrary: g)
  case Nil
  then show ?case by simp
next
  case (Cons e es)
  from handle_event_inv[OF Cons.prems, of e] obtain g1 where
    g1: "handle_event g e = Inr g1" "game_inv g1" by blast
  from Cons.IH[OF g1(2)] show ?case using g1(1) by simp
qed

lemma controls_inv: "game_inv g \<Longrightarrow> game_inv (controls g ks)"
  by (simp add: controls_def Let_def game_inv_def)

lemma scoring_inv:
  assumes "game_inv g"
  shows "\<exists>g'. scoring g = Inr g' \<and> game_inv g'"
proof -
  define g0 where "g0 = (if rect_left (ball g) \<le> rect_left play_area - 4 then g\<lparr>score_r := score_r g + 1\<rparr> else g)"
  have "\<exists>g1. (if rect_left (ball g) \<le> rect_left play_area - 4
            then reset_ball (g\<lparr>score_r := score_r g + 1\<rparr>) else Inr g) = Inr g1 \<and> game_inv g1"
  proof (cases "rect_left (ball g) \<le> rect_left play_area - 4")
    case True
    have "game_inv (g\<lparr>score_r := score_r g + 1\<rparr>)" using assms by (simp add: game_inv_def)
    from reset_ball_inv[OF this] show ?thesis using True by auto
  next
    case False
    then show ?thesis using assms by simp
  qed
  then obtain g1 where g1: "(if rect_left (ball g) \<le> rect_left play_area - 4
            then reset_ball (g\<lparr>score_r := score_r g + 1\<rparr>) else Inr g) = Inr g1" "game_inv g1"
    by blast
  have "\<exists>g2. (if rect_right (ball g1) \<ge> rect_right play_area + 4
           then reset_ball (g1\<lparr>score_l := score_l g1 + 1\<rparr>) else Inr g1) = Inr g2 \<and> game_inv g2"
  proof (cases "rect_right (ball g1) \<ge> rect_right play_area + 4")
    case True
    have "game_inv (g1\<lparr>score_l := score_l g1 + 1\<rparr>)" using g1(2) by (simp add: game_inv_def)
    from reset_ball_inv[OF this] show ?thesis using True by auto
  next
    case False
    then show ?thesis using g1(2) by simp
  qed
  then show ?thesis unfolding scoring_def g1(1) by simp
qed

lemma update_step_inv:
  assumes "game_inv g"
  shows "\<exists>g'. update_step g = Inr g' \<and> game_inv g'"
proof -
  define g2 where "g2 = g\<lparr>left := Paddle_update (left g) play_area,
                           right := Paddle_update (right g) play_area\<rparr>"
  from assms have rb: "reach_ball (ball g)" and vd: "\<forall>n. valid_draw (rng g n)"
    by (simp_all add: game_inv_def)
  define b2 where "b2 = clamp_ball_vertical (Ball_update (ball g)) play_area"
  have rb2: "reach_ball b2" unfolding b2_def by (intro reach_ball.wall reach_ball.update rb)
  from collision_ok[of b2 "left g2"] reach_ball_inv[OF rb2] obtain b3 where
    b3: "ball_paddle_collision b2 (left g2) = Inr b3" by blast
  have rb3: "reach_ball b3" using reach_ball.paddle[OF rb2 b3] .
  from collision_ok[of b3 "right g2"] reach_ball_inv[OF rb3] obtain b4 where
    b4: "ball_paddle_collision b3 (right g2) = Inr b4" by blast
  have rb4: "reach_ball b4" using reach_ball.paddle[OF rb3 b4] .
  have "game_inv (g2\<lparr>ball := b4\<rparr>)" using rb4 vd by (simp add: game_inv_def g2_def)
  from scoring_inv[OF this] obtain g' where
    g': "scoring (g2\<lparr>ball := b4\<rparr>) = Inr g'" "game_inv g'" by blast
  have "update_step g = Inr g'"
    using b3 b4 g'(1) by (simp add: update_step_def Let_def g2_def b2_def)
  then show ?thesis using g'(2) by blast
qed

lemma win_banner_inv: "game_inv g \<Longrightarrow> game_inv (win_banner g)"
  by (simp add: win_banner_def game_inv_def)

lemma frame_inv:
  assumes "game_inv g"
  shows "\<exists>g'. frame g inp = Inr g' \<and> game_inv g'"
proof -
  from handle_events_inv[OF assms] obtain g1 where
    g1: "handle_events g (events inp) = Inr g1" "game_inv g1" by blast
  define g2 where "g2 = controls g1 (keys inp)"
  have i2: "game_inv g2" unfolding g2_def using controls_inv[OF g1(2)] .
  have "\<exists>g3. (if \<not> paused g2 then update_step g2 else Inr g2) = Inr g3 \<and> game_inv g3"
    using update_step_inv[OF i2] i2 by auto
  then obtain g3 where g3: "(if \<not> paused g2 then update_step g2 else Inr g2) = Inr g3" "game_inv g3"
    by blast
  have "frame g inp = Inr (win_banner g3)"
    using g1(1) g3(1) unfolding g2_def by (simp add: frame_def Let_def)
  then show ?thesis using win_banner_inv[OF g3(2)] by blast
qed

lemma init_inv:
  assumes "\<And>n. valid_draw (r n)"
  shows "\<exists>g. init r = Inr g \<and> game_inv g"
proof -
  let ?b0 = "\<lparr>rect_x = WIDTH div 2 - BALL_SIZE div 2, rect_y = HEIGHT div 2 - BALL_SIZE div 2,
              rect_w = BALL_SIZE, rect_h = BALL_SIZE, vx = 0, vy = 0\<rparr>"
  let ?c = "(WIDTH div 2 - BALL_SIZE div 2, HEIGHT div 2 - BALL_SIZE div 2)"
  obtain b where b: "Ball_reset ?b0 ?c (r 0) = Inr b"
    using Ball_reset_ok[OF assms[of 0]] by blast
  have "reach_ball b" by (rule reach_ball.reset[OF _ _ assms[of 0] b]) simp_all
  then show ?thesis using b assms by (simp add: init_def Ball_def game_inv_def)
qed

lemma reachable_inv: "reachable g \<Longrightarrow> game_inv g"
proof (induction rule: reachable.induct)
  case (start r g)
  then show ?case using init_inv[of r] by auto
next
  case (step g inp g')
  then show ?case using frame_inv[of g inp] by auto
qed

subsection \<open>The concrete states are reachable\<close>

lemma valid_ex_draw: "valid_draw ex_draw"
  by (simp add: valid_draw_def ex_draw_def)

lemma ex_ball_reset:
  "Ball_reset \<lparr>rect_x = 0, rect_y = 0, rect_w = 14, rect_h = 14, vx = 0, vy = 0\<rparr> (450, 300) ex_draw
     = Inr ex_ball"
  by (simp add: Ball_reset_def set_center_def BALL_SPEED_def signed_divide_int_def
      power2_eq_square sqrt_25_16 ex_draw_def ex_ball_def)

lemma reach_ex_ball: "reach_ball ex_ball"
  by (rule reach_ball.reset[OF _ _ valid_ex_draw ex_ball_reset]) (simp_all add: BALL_SIZE_def)

lemma init_ex_game: "init (\<lambda>n. ex_draw) = Inr ex_game"
  by (simp add: init_def Ball_def Ball_reset_def set_center_def config signed_divide_int_def
      power2_eq_square sqrt_25_16 ex_draw_def ex_game_def)

lemma reachable_ex_game: "reachable ex_game"
  by (rule reachable.start[OF _ init_ex_game]) (rule valid_ex_draw)

subsection \<open>The speed budget\<close>

text \<open>
  Claim C6. After every direction-changing event (reset, wall bounce, paddle bounce) the
  speed \<open>sqrt (vx\<^sup>2 + vy\<^sup>2)\<close> equals \<^verbatim>\<open>BALL_SPEED\<close>, and it does not drift over any number
  of events: every ball produced by any sequence of resets, updates, wall clamps and paddle
  collisions has exactly that speed, and so has the ball of every reachable game.
\<close>

theorem speed_budget_invariant:
  "(reach_ball b \<longrightarrow> speed_of b = real_of_int BALL_SPEED)
   \<and> (reachable g \<longrightarrow> speed_of (ball g) = real_of_int BALL_SPEED)"
proof (intro conjI impI)
  assume "reach_ball b"
  then show "speed_of b = real_of_int BALL_SPEED"
    using reach_ball_inv[of b] vel_ok_speed[of b] by simp
next
  assume "reachable g"
  then have "reach_ball (ball g)" using reachable_inv[of g] by (simp add: game_inv_def)
  then show "speed_of (ball g) = real_of_int BALL_SPEED"
    using reach_ball_inv[of "ball g"] vel_ok_speed[of "ball g"] by simp
qed

theorem speed_budget_invariant_witness:
  "reach_ball (clamp_ball_vertical (Ball_update ex_ball) play_area)
   \<and> speed_of (clamp_ball_vertical (Ball_update ex_ball) play_area) = 6
   \<and> reachable ex_game \<and> speed_of (ball ex_game) = 6"
proof -
  have r: "reach_ball (clamp_ball_vertical (Ball_update ex_ball) play_area)"
    by (intro reach_ball.wall reach_ball.update reach_ex_ball)
  from speed_budget_invariant[of "clamp_ball_vertical (Ball_update ex_ball) play_area" ex_game]
    r reachable_ex_game
  show ?thesis by (simp add: BALL_SPEED_def)
qed

subsection \<open>Wall bounces\<close>

text \<open>
  Claim C8 says that at every wall bounce the ball is clamped fully inside the play area.
  The clamp is vertical only. The ball at \<open>(22, 24)\<close> with velocity \<open>(-4.8, -3.6)\<close> is at
  \<open>(17, 20)\<close> after the update: it bounces off the top wall, \<open>vy\<close> becomes \<open>3.6\<close>, and the
  frame ends with its left edge at 17, outside the play area (whose left boundary is 20),
  and no point scored.
\<close>

theorem wall_bounce_left_of_play_area:
  "rect_top (Ball_update wall_ball) \<le> rect_top play_area
   \<and> rect_left (clamp_ball_vertical (Ball_update wall_ball) play_area) = 17
   \<and> rect_left play_area = 20
   \<and> vy (clamp_ball_vertical (Ball_update wall_ball) play_area) = 18 / 5
   \<and> frame wall_game \<lparr>events = [], keys = no_keys\<rparr>
       = Inr (ex_game\<lparr>right := (Paddle 848 239)\<lparr>vel := - (63 / 10)\<rparr>,
                      ball := wall_ball\<lparr>rect_x := 17, rect_y := 20, vy := 18 / 5\<rparr>\<rparr>)"
  by (simp add: frame_def controls_def ai_move_def update_step_def scoring_def win_banner_def
      Ball_update_def Paddle_update_def clamp_ball_vertical_def ball_paddle_collision_def
      colliderect_def play_area_def pg_int_def Paddle_def wall_game_def wall_ball_def
      ex_game_def no_keys_def rect_left_def rect_right_def rect_top_def rect_bottom_def
      rect_centery_def set_top_def set_bottom_def config signed_divide_int_def)

text \<open>
  Claim C8, amended. At every wall bounce (the ball's top at or above the play area's top,
  or else its bottom at or below the area's bottom) the ball is clamped vertically onto the
  wall it hit: its top becomes the area's top, respectively its bottom the area's bottom, and
  \<open>vy\<close> is negated; a ball that touches neither wall is left as it is. In every case the ball
  comes out within the vertical span of the play area (no tunnelling through a wall), and its
  horizontal position, its horizontal velocity and its size are untouched.
\<close>

theorem wall_bounce_clamps_to_wall:
  assumes "rect_h b = BALL_SIZE"
  shows "rect_top play_area \<le> rect_top (clamp_ball_vertical b play_area)
       \<and> rect_bottom (clamp_ball_vertical b play_area) \<le> rect_bottom play_area
       \<and> vx (clamp_ball_vertical b play_area) = vx b
       \<and> rect_x (clamp_ball_vertical b play_area) = rect_x b
       \<and> rect_w (clamp_ball_vertical b play_area) = rect_w b
       \<and> rect_h (clamp_ball_vertical b play_area) = rect_h b
       \<and> (rect_top b \<le> rect_top play_area \<longrightarrow>
            rect_top (clamp_ball_vertical b play_area) = rect_top play_area
            \<and> vy (clamp_ball_vertical b play_area) = - vy b)
       \<and> (rect_top play_area < rect_top b \<and> rect_bottom play_area \<le> rect_bottom b \<longrightarrow>
            rect_bottom (clamp_ball_vertical b play_area) = rect_bottom play_area
            \<and> vy (clamp_ball_vertical b play_area) = - vy b)
       \<and> (rect_top play_area < rect_top b \<and> rect_bottom b < rect_bottom play_area \<longrightarrow>
            clamp_ball_vertical b play_area = b)"
proof -
  have le: "rect_h b \<le> rect_h play_area" using assms by (simp add: play_area_def config)
  have span: "rect_top play_area \<le> rect_top (clamp_ball_vertical b play_area)
       \<and> rect_bottom (clamp_ball_vertical b play_area) \<le> rect_bottom play_area"
  proof (cases "rect_top b \<le> rect_top play_area \<or> rect_bottom b \<ge> rect_bottom play_area")
    case True
    from clamp_within[OF le True] show ?thesis by simp
  next
    case False
    then show ?thesis by (auto simp: clamp_ball_vertical_def)
  qed
  have top: "rect_top b \<le> rect_top play_area \<longrightarrow>
            rect_top (clamp_ball_vertical b play_area) = rect_top play_area
            \<and> vy (clamp_ball_vertical b play_area) = - vy b"
    by (simp add: clamp_ball_vertical_def rect_top_def set_top_def)
  have bottom: "rect_top play_area < rect_top b \<and> rect_bottom play_area \<le> rect_bottom b \<longrightarrow>
            rect_bottom (clamp_ball_vertical b play_area) = rect_bottom play_area
            \<and> vy (clamp_ball_vertical b play_area) = - vy b"
    by (simp add: clamp_ball_vertical_def rect_bottom_def set_bottom_def)
  have none: "rect_top play_area < rect_top b \<and> rect_bottom b < rect_bottom play_area \<longrightarrow>
            clamp_ball_vertical b play_area = b"
    by (simp add: clamp_ball_vertical_def)
  from span clamp_vel[of b play_area] top bottom none show ?thesis by simp
qed

theorem wall_bounce_clamps_to_wall_witness:
  "rect_h (ex_ball\<lparr>rect_y := 17\<rparr>) = BALL_SIZE
   \<and> rect_top (ex_ball\<lparr>rect_y := 17\<rparr>) \<le> rect_top play_area
   \<and> rect_y (clamp_ball_vertical (ex_ball\<lparr>rect_y := 17\<rparr>) play_area) = 20
   \<and> vy (clamp_ball_vertical (ex_ball\<lparr>rect_y := 17\<rparr>) play_area) = - (18 / 5)
   \<and> rect_h (ex_ball\<lparr>rect_y := 570\<rparr>) = BALL_SIZE
   \<and> rect_top play_area < rect_top (ex_ball\<lparr>rect_y := 570\<rparr>)
   \<and> rect_bottom play_area \<le> rect_bottom (ex_ball\<lparr>rect_y := 570\<rparr>)
   \<and> rect_y (clamp_ball_vertical (ex_ball\<lparr>rect_y := 570\<rparr>) play_area) = 566
   \<and> rect_bottom (clamp_ball_vertical (ex_ball\<lparr>rect_y := 570\<rparr>) play_area) = 580
   \<and> vy (clamp_ball_vertical (ex_ball\<lparr>rect_y := 570\<rparr>) play_area) = - (18 / 5)
   \<and> rect_h ex_ball = BALL_SIZE
   \<and> rect_top play_area < rect_top ex_ball \<and> rect_bottom ex_ball < rect_bottom play_area
   \<and> clamp_ball_vertical ex_ball play_area = ex_ball"
proof -
  have h: "rect_h (ex_ball\<lparr>rect_y := 17\<rparr>) = BALL_SIZE"
    "rect_h (ex_ball\<lparr>rect_y := 570\<rparr>) = BALL_SIZE" "rect_h ex_ball = BALL_SIZE"
    by (simp_all add: ex_ball_def BALL_SIZE_def)
  have t: "rect_top (ex_ball\<lparr>rect_y := 17\<rparr>) \<le> rect_top play_area"
    "rect_top play_area < rect_top (ex_ball\<lparr>rect_y := 570\<rparr>)"
    "rect_bottom play_area \<le> rect_bottom (ex_ball\<lparr>rect_y := 570\<rparr>)"
    "rect_top play_area < rect_top ex_ball" "rect_bottom ex_ball < rect_bottom play_area"
    by (simp_all add: ex_ball_def rect_top_def rect_bottom_def play_area_def config)
  from wall_bounce_clamps_to_wall[OF h(1)] wall_bounce_clamps_to_wall[OF h(2)]
    wall_bounce_clamps_to_wall[OF h(3)] h t
  show ?thesis
    by (simp add: ex_ball_def rect_top_def rect_bottom_def play_area_def config)
qed

subsection \<open>A reset can produce a purely horizontal ball\<close>

text \<open>
  Claim C4 says that every velocity produced by \<^verbatim>\<open>Ball.reset\<close> has speed
  \<^verbatim>\<open>BALL_SPEED\<close>, \<open>vx \<noteq> 0\<close> and \<open>vy \<noteq> 0\<close>. The first two hold
  (\<open>Ball_reset_vel_ok\<close>); the third does not: \<^verbatim>\<open>random.uniform(-0.8, 0.8)\<close> can
  return \<open>0\<close>, and the reset then yields \<open>vy = 0\<close>, although the comment in the code
  announces a non-zero vertical component.
\<close>
theorem Ball_reset_zero_vertical:
  "valid_draw \<lparr>choice = 1, uniform = 0\<rparr>
   \<and> Ball_reset \<lparr>rect_x = 0, rect_y = 0, rect_w = 14, rect_h = 14, vx = 0, vy = 0\<rparr> (450, 300)
        \<lparr>choice = 1, uniform = 0\<rparr>
      = Inr \<lparr>rect_x = 443, rect_y = 293, rect_w = 14, rect_h = 14, vx = 6, vy = 0\<rparr>"
  by (simp add: valid_draw_def Ball_reset_def set_center_def BALL_SPEED_def signed_divide_int_def)

subsection \<open>No division by zero\<close>

text \<open>
  Claim C9. Every normalising division has a non-zero divisor: in \<^verbatim>\<open>Ball.reset\<close> the
  magnitude is at least 1 for every draw, so the reset returns; every reachable ball has
  \<open>vx \<noteq> 0\<close>, so \<^verbatim>\<open>ball_paddle_collision\<close> returns on it for every paddle; and every
  frame started from a reachable game returns a game instead of raising
  \<^verbatim>\<open>ZeroDivisionError\<close>.
\<close>
theorem no_division_by_zero:
  "(valid_draw d \<longrightarrow>
      1 \<le> sqrt ((real_of_int (choice d))\<^sup>2 + (uniform d)\<^sup>2) \<and> (\<exists>b'. Ball_reset b c d = Inr b'))
   \<and> (reach_ball rb \<longrightarrow> vx rb \<noteq> 0 \<and> (\<exists>b'. ball_paddle_collision rb p = Inr b'))
   \<and> (reachable g \<longrightarrow> (\<exists>g'. frame g inp = Inr g'))"
proof (intro conjI impI)
  assume "valid_draw d"
  then show "1 \<le> sqrt ((real_of_int (choice d))\<^sup>2 + (uniform d)\<^sup>2)" by (rule mag_ge_1)
next
  assume "valid_draw d"
  then show "\<exists>b'. Ball_reset b c d = Inr b'" using Ball_reset_ok[of d b c] by blast
next
  assume "reach_ball rb"
  then show "vx rb \<noteq> 0" using reach_ball_inv[of rb] by (simp add: vel_ok_def)
next
  assume "reach_ball rb"
  then show "\<exists>b'. ball_paddle_collision rb p = Inr b'"
    using reach_ball_inv[of rb] collision_ok[of rb p] by blast
next
  assume "reachable g"
  then show "\<exists>g'. frame g inp = Inr g'"
    using reachable_inv[of g] frame_inv[of g inp] by blast
qed

theorem no_division_by_zero_witness:
  "valid_draw ex_draw
   \<and> 1 \<le> sqrt ((real_of_int (choice ex_draw))\<^sup>2 + (uniform ex_draw)\<^sup>2)
   \<and> (\<exists>b'. Ball_reset ex_ball (450, 300) ex_draw = Inr b')
   \<and> reach_ball ex_ball \<and> vx ex_ball \<noteq> 0
   \<and> (\<exists>b'. ball_paddle_collision ex_ball (Paddle 450 245) = Inr b')
   \<and> reachable ex_game
   \<and> (\<exists>g'. frame ex_game \<lparr>events = [KEYDOWN K_r], keys = \<lparr>K_s = True, K_w = False\<rparr>\<rparr> = Inr g')"
  using no_division_by_zero[of ex_draw ex_ball "(450, 300)" ex_ball "Paddle 450 245" ex_game
      "\<lparr>events = [KEYDOWN K_r], keys = \<lparr>K_s = True, K_w = False\<rparr>\<rparr>"]
    valid_ex_draw reach_ex_ball reachable_ex_game
  by simp

subsection \<open>More reachable balls\<close>









lemma hit_ball_reset:
  "Ball_reset ex_ball (50, 300) \<lparr>choice = - 1, uniform = 3 / 4\<rparr> = Inr hit_ball"
  by (simp add: Ball_reset_def set_center_def BALL_SPEED_def signed_divide_int_def
      power2_eq_square sqrt_25_16 hit_ball_def ex_ball_def)

subsection \<open>Rounding of the ball's position\<close>






subsection \<open>Paddle bounces\<close>

text \<open>
  Claim C5. At every paddle bounce (a reachable ball whose rectangle intersects the paddle)
  the collision returns, the speed after the bounce equals the speed before it, \<open>vx\<close> is
  non-zero and changes sign, and when the ball's vertical centre is the paddle's (offset 0)
  the new \<open>vy\<close> is \<open>0\<close>.
\<close>

theorem paddle_bounce_keeps_speed:
  assumes "reach_ball b" and "colliderect b p"
  shows "\<exists>b'. ball_paddle_collision b p = Inr b' \<and> speed_of b' = speed_of b
           \<and> vx b \<noteq> 0 \<and> sgn (vx b') = - sgn (vx b)
           \<and> (rect_centery b = rect_centery p \<longrightarrow> vy b' = 0)"
proof -
  from reach_ball_inv[OF assms(1)] have ok: "vel_ok b" by simp
  then have vx0: "vx b \<noteq> 0" by (simp add: vel_ok_def)
  define b1 where "b1 = (if vx b < 0 then set_left b (rect_right p) else set_right b (rect_left p))"
  define offset where
    "offset = real_of_int (rect_centery b1 - rect_centery p) / (real_of_int PADDLE_H / 2)"
  define vy1 where "vy1 = (real_of_int BALL_SPEED + 0.5) * offset"
  define speed where "speed = sqrt ((vx b1 * (-1))\<^sup>2 + vy1\<^sup>2)"
  have vxb1: "vx b1 = vx b" and cy: "rect_centery b1 = rect_centery b"
    by (simp_all add: b1_def set_left_def set_right_def rect_centery_def)
  have "0 < (vx b1 * (-1))\<^sup>2 + vy1\<^sup>2" using vx0 by (simp add: vxb1 sum_power2_gt_zero_iff)
  then have sp: "0 < speed" by (simp add: speed_def)
  then have sp0: "speed \<noteq> 0" by simp
  define b' where "b' = b1\<lparr>vx := vx b1 * (-1) * (real_of_int BALL_SPEED / speed),
                            vy := vy1 * (real_of_int BALL_SPEED / speed)\<rparr>"
  have res: "ball_paddle_collision b p = Inr b'"
    using assms(2) sp0
    by (simp add: ball_paddle_collision_def Let_def b'_def speed_def vy1_def
        offset_def b1_def del: real_sqrt_eq_zero_cancel_iff)
  from collision_ok[OF ok, of p] res have "vel_ok b'" by simp
  then have "speed_of b' = speed_of b" using ok by (simp add: vel_ok_speed)
  moreover have "sgn (vx b') = - sgn (vx b)"
    using sp by (simp add: b'_def vxb1 sgn_mult BALL_SPEED_def)
  moreover have "rect_centery b = rect_centery p \<longrightarrow> vy b' = 0"
    by (simp add: b'_def vy1_def offset_def cy)
  ultimately show ?thesis using res vx0 by blast
qed

theorem paddle_bounce_keeps_speed_witness:
  "reach_ball hit_ball \<and> colliderect hit_ball (Paddle 38 245)
   \<and> rect_centery hit_ball = rect_centery (Paddle 38 245)
   \<and> (\<exists>b'. ball_paddle_collision hit_ball (Paddle 38 245) = Inr b'
          \<and> speed_of b' = speed_of hit_ball \<and> sgn (vx b') = - sgn (vx hit_ball) \<and> vy b' = 0)"
proof -
  have r: "reach_ball hit_ball"
    by (rule reach_ball.reset[OF _ _ _ hit_ball_reset])
      (simp_all add: BALL_SIZE_def ex_ball_def valid_draw_def)
  have c: "colliderect hit_ball (Paddle 38 245)"
    by (simp add: colliderect_def hit_ball_def Paddle_def config)
  have e: "rect_centery hit_ball = rect_centery (Paddle 38 245)"
    by (simp add: rect_centery_def hit_ball_def Paddle_def config signed_divide_int_def)
  from paddle_bounce_keeps_speed[OF r c] e r c show ?thesis by auto
qed

lemma hit_ball_bounce:
  "ball_paddle_collision hit_ball (Paddle 38 245)
     = Inr \<lparr>rect_x = 52, rect_y = 293, rect_w = 14, rect_h = 14, vx = 6, vy = 0\<rparr>"
  by (simp add: ball_paddle_collision_def colliderect_def hit_ball_def Paddle_def config
      rect_centery_def rect_right_def rect_left_def set_left_def set_right_def signed_divide_int_def)

subsection \<open>Frames evaluated at concrete games\<close>

lemmas rect_ops = rect_left_def rect_right_def rect_top_def rect_bottom_def rect_centerx_def
  rect_centery_def set_left_def set_right_def set_top_def set_bottom_def set_center_def

lemmas frame_defs = frame_def controls_def ai_move_def update_step_def scoring_def
  win_banner_def reset_ball_def next_draw_def Ball_reset_def Ball_update_def Paddle_update_def
  clamp_ball_vertical_def ball_paddle_collision_def colliderect_def play_area_def pg_int_def
  Paddle_def

lemmas ex_defs = ex_game_def ex_ball_def ex_draw_def won_game_def goal_game_def
  no_keys_def

text \<open>
  Claim C2 says that in the Won state no gameplay update occurs until a reset, and that only
  reset and quit are accepted. The loop freezes a won game by setting \<^verbatim>\<open>paused\<close> at the
  end of every frame, but the SPACE key still toggles that flag at the start of the next one:
  in the game the right side has won 3--11, a frame with a SPACE key-down runs the whole
  update and moves the ball from \<open>(443, 293)\<close> to \<open>(448, 297)\<close>.
\<close>

theorem space_in_won_state_runs_a_frame:
  "state_of won_game = Won Right
   \<and> frame won_game \<lparr>events = [KEYDOWN K_SPACE], keys = no_keys\<rparr>
       = Inr (won_game\<lparr>ball := ex_ball\<lparr>rect_x := 448, rect_y := 297\<rparr>\<rparr>)"
  by (simp add: state_of_def frame_defs ex_defs rect_ops config signed_divide_int_def)

text \<open>
  Claim C1 says that a reset leaves the game in the Playing state, whatever the state before,
  and in particular that a reset fired in a won game sets the game playing again. The R key
  zeroes the scores and re-centres the ball but never clears \<^verbatim>\<open>paused\<close>, which the win
  banner has set: in the game the right side has won 3--11, a frame with an R key-down ends
  with the scores at 0, the ball re-centred and the game paused, and the next frame, with no
  event, changes nothing.
\<close>

theorem reset_leaves_won_game_paused:
  "state_of won_game = Won Right
   \<and> frame won_game \<lparr>events = [KEYDOWN K_r], keys = no_keys\<rparr>
       = Inr (ex_game\<lparr>ball := ex_ball, paused := True\<rparr>)
   \<and> state_of (ex_game\<lparr>ball := ex_ball, paused := True\<rparr>) = Paused
   \<and> frame (ex_game\<lparr>ball := ex_ball, paused := True\<rparr>) \<lparr>events = [], keys = no_keys\<rparr>
       = Inr (ex_game\<lparr>ball := ex_ball, paused := True\<rparr>)"
  by (simp add: state_of_def frame_defs ex_defs rect_ops config signed_divide_int_def
      power2_eq_square sqrt_25_16)


subsection \<open>Reset and scoring\<close>

lemma centre_after_reset:
  assumes "Ball_reset b c d = Inr b'"
  shows "rect_centerx b' = fst c \<and> rect_centery b' = snd c"
  using Ball_reset_rect[OF assms] by (simp add: rect_centerx_def rect_centery_def)

lemma reset_event:
  assumes "valid_draw (rng g 0)"
  shows "\<exists>g'. handle_event g (KEYDOWN K_r) = Inr g'
           \<and> score_l g' = 0 \<and> score_r g' = 0
           \<and> rect_centerx (ball g') = WIDTH div 2 \<and> rect_centery (ball g') = HEIGHT div 2
           \<and> speed_of (ball g') = real_of_int BALL_SPEED
           \<and> left g' = left g \<and> right g' = right g"
proof -
  let ?g0 = "g\<lparr>score_l := 0, score_r := 0\<rparr>"
  obtain b where b: "Ball_reset (ball ?g0) (WIDTH div 2, HEIGHT div 2) (rng ?g0 0) = Inr b"
    using Ball_reset_ok[of "rng ?g0 0"] assms by auto
  have r: "handle_event g (KEYDOWN K_r) = Inr (?g0\<lparr>rng := (\<lambda>n. rng ?g0 (Suc n)), ball := b\<rparr>)"
    using b by (simp add: reset_ball_def next_draw_def)
  have "vel_ok b" using Ball_reset_vel_ok[OF _ b] assms by simp
  then have sp: "speed_of b = real_of_int BALL_SPEED" by (rule vel_ok_speed)
  from centre_after_reset[OF b]
  have c: "rect_centerx b = WIDTH div 2" "rect_centery b = HEIGHT div 2" by simp_all
  show ?thesis unfolding r using sp c by simp
qed



subsection \<open>Invariants of the paddles\<close>

lemma reset_ball_fields:
  assumes "reset_ball g = Inr g'"
  shows "left g' = left g \<and> right g' = right g \<and> score_l g' = score_l g
       \<and> score_r g' = score_r g \<and> paused g' = paused g \<and> running g' = running g"
  using assms by (auto simp: reset_ball_def next_draw_def split: sum.splits)

lemma handle_event_paddles:
  assumes "handle_event g e = Inr g'"
  shows "left g' = left g \<and> right g' = right g"
proof (cases e)
  case (KEYDOWN k)
  then show ?thesis using assms reset_ball_fields[of "g\<lparr>score_l := 0, score_r := 0\<rparr>" g']
    by (cases k) auto
qed (use assms in auto)

lemma handle_events_paddles:
  "handle_events g es = Inr g' \<Longrightarrow> left g' = left g \<and> right g' = right g"
proof (induction es arbitrary: g)
  case Nil
  then show ?case by simp
next
  case (Cons e es)
  then obtain g1 where g1: "handle_event g e = Inr g1" "handle_events g1 es = Inr g'"
    by (auto split: sum.splits)
  from Cons.IH[OF g1(2)] handle_event_paddles[OF g1(1)] show ?case by simp
qed

lemma scoring_paddles:
  assumes "scoring g = Inr g'"
  shows "left g' = left g \<and> right g' = right g"
proof -
  obtain g1 where g1: "(if rect_left (ball g) \<le> rect_left play_area - 4
            then reset_ball (g\<lparr>score_r := score_r g + 1\<rparr>) else Inr g) = Inr g1"
    and g2: "(if rect_right (ball g1) \<ge> rect_right play_area + 4
           then reset_ball (g1\<lparr>score_l := score_l g1 + 1\<rparr>) else Inr g1) = Inr g'"
    using assms by (auto simp: scoring_def split: sum.splits)
  have "left g1 = left g \<and> right g1 = right g"
    using g1 reset_ball_fields[of "g\<lparr>score_r := score_r g + 1\<rparr>" g1] by (auto split: if_splits)
  moreover have "left g' = left g1 \<and> right g' = right g1"
    using g2 reset_ball_fields[of "g1\<lparr>score_l := score_l g1 + 1\<rparr>" g'] by (auto split: if_splits)
  ultimately show ?thesis by simp
qed

lemma update_step_paddles:
  assumes "update_step g = Inr g'"
  shows "left g' = Paddle_update (left g) play_area \<and> right g' = Paddle_update (right g) play_area"
proof -
  from assms obtain b4 where
    "scoring (g\<lparr>left := Paddle_update (left g) play_area,
                right := Paddle_update (right g) play_area, ball := b4\<rparr>) = Inr g'"
    by (auto simp: update_step_def Let_def split: sum.splits)
  from scoring_paddles[OF this] show ?thesis by simp
qed

lemma Paddle_update_geom:
  "rect_x (Paddle_update p bounds) = rect_x p \<and> rect_w (Paddle_update p bounds) = rect_w p
   \<and> rect_h (Paddle_update p bounds) = rect_h p"
  by (simp add: Paddle_update_def Let_def set_top_def set_bottom_def)

lemma ai_move_geom:
  "rect_x (ai_move p b) = rect_x p \<and> rect_y (ai_move p b) = rect_y p
   \<and> rect_w (ai_move p b) = rect_w p \<and> rect_h (ai_move p b) = rect_h p"
  by (simp add: ai_move_def Let_def)

lemma within_area_cong:
  "rect_y r' = rect_y r \<Longrightarrow> rect_h r' = rect_h r \<Longrightarrow> within_area r' = within_area r"
  by (simp add: within_area_def rect_top_def rect_bottom_def)

lemma controls_paddles_inv: "paddles_inv g \<Longrightarrow> paddles_inv (controls g ks)"
  by (simp add: paddles_inv_def controls_def Let_def ai_move_geom
      within_area_cong[of "ai_move (right g) (ball g)" "right g"]
      within_area_cong[of "(left g)\<lparr>vel := v\<rparr>" "left g" for v])

lemma Paddle_update_paddles_inv:
  assumes "rect_h p = PADDLE_H"
  shows "within_area (Paddle_update p play_area)"
  using Paddle_update_within[of p play_area] assms
  by (simp add: within_area_def play_area_def config)

lemma update_step_paddles_inv:
  assumes "paddles_inv g" and "update_step g = Inr g'"
  shows "paddles_inv g'"
  using assms(1) update_step_paddles[OF assms(2)]
  by (simp add: paddles_inv_def Paddle_update_geom Paddle_update_paddles_inv)

lemma win_banner_paddles: "left (win_banner g) = left g \<and> right (win_banner g) = right g"
  by (simp add: win_banner_def)

lemma frame_paddles_inv:
  assumes "paddles_inv g" and "frame g inp = Inr g'"
  shows "paddles_inv g'"
proof -
  from assms(2) obtain g1 g3 where
    g1: "handle_events g (events inp) = Inr g1"
    and g3: "(if \<not> paused (controls g1 (keys inp)) then update_step (controls g1 (keys inp))
              else Inr (controls g1 (keys inp))) = Inr g3"
    and g': "g' = win_banner g3"
    by (auto simp: frame_def Let_def split: sum.splits)
  have "paddles_inv g1" using assms(1) handle_events_paddles[OF g1] by (simp add: paddles_inv_def)
  then have i2: "paddles_inv (controls g1 (keys inp))" by (rule controls_paddles_inv)
  have "paddles_inv g3"
  proof (cases "paused (controls g1 (keys inp))")
    case True
    then show ?thesis using g3 i2 by simp
  next
    case False
    then show ?thesis using g3 update_step_paddles_inv[OF i2] by simp
  qed
  then show ?thesis unfolding g' using win_banner_paddles[of g3] by (simp add: paddles_inv_def)
qed

lemma init_paddles_inv:
  assumes "init r = Inr g"
  shows "paddles_inv g"
  using assms
  by (auto simp: init_def paddles_inv_def Paddle_def within_area_def play_area_def
      rect_top_def rect_bottom_def config split: sum.splits)

lemma reachable_paddles_inv: "reachable g \<Longrightarrow> paddles_inv g"
proof (induction rule: reachable.induct)
  case (start r g)
  then show ?case by (simp add: init_paddles_inv)
next
  case (step g inp g')
  then show ?case by (simp add: frame_paddles_inv)
qed

subsection \<open>Paddles stay in the play area\<close>

text \<open>
  Claim C7. For any paddle velocity, after \<^verbatim>\<open>Paddle.update\<close> against the play area a
  paddle (of height \<^verbatim>\<open>PADDLE_H\<close>, as the constructor builds it) lies within the play
  area's vertical span: its top is not above the area's top and its bottom is not below the
  area's bottom. Hence both paddles of every reachable game lie within that span.
\<close>

theorem paddles_stay_in_play_area:
  "(rect_h p = PADDLE_H \<longrightarrow>
      rect_top play_area \<le> rect_top (Paddle_update p play_area)
      \<and> rect_bottom (Paddle_update p play_area) \<le> rect_bottom play_area)
   \<and> (reachable g \<longrightarrow>
      rect_top play_area \<le> rect_top (left g) \<and> rect_bottom (left g) \<le> rect_bottom play_area
      \<and> rect_top play_area \<le> rect_top (right g) \<and> rect_bottom (right g) \<le> rect_bottom play_area)"
proof (intro conjI impI)
  assume h: "rect_h p = PADDLE_H"
  have le: "rect_h p \<le> rect_h play_area" using h by (simp add: play_area_def config)
  from Paddle_update_within[OF le]
  show "rect_top play_area \<le> rect_top (Paddle_update p play_area)"
    and "rect_bottom (Paddle_update p play_area) \<le> rect_bottom play_area"
    by simp_all
next
  assume "reachable g"
  then have "paddles_inv g" by (rule reachable_paddles_inv)
  then have "within_area (left g)" "within_area (right g)" by (simp_all add: paddles_inv_def)
  then show "rect_top play_area \<le> rect_top (left g)" "rect_bottom (left g) \<le> rect_bottom play_area"
    "rect_top play_area \<le> rect_top (right g)" "rect_bottom (right g) \<le> rect_bottom play_area"
    by (simp_all add: within_area_def)
qed

theorem paddles_stay_in_play_area_witness:
  "rect_h ((Paddle 38 500)\<lparr>vel := 7\<rparr>) = PADDLE_H
   \<and> rect_top play_area \<le> rect_top (Paddle_update ((Paddle 38 500)\<lparr>vel := 7\<rparr>) play_area)
   \<and> rect_bottom (Paddle_update ((Paddle 38 500)\<lparr>vel := 7\<rparr>) play_area) \<le> rect_bottom play_area
   \<and> rect_y (Paddle_update ((Paddle 38 500)\<lparr>vel := 7\<rparr>) play_area) = 470
   \<and> reachable ex_game
   \<and> rect_top play_area \<le> rect_top (left ex_game)
   \<and> rect_bottom (left ex_game) \<le> rect_bottom play_area
   \<and> rect_top play_area \<le> rect_top (right ex_game)
   \<and> rect_bottom (right ex_game) \<le> rect_bottom play_area"
proof -
  have h: "rect_h ((Paddle 38 500)\<lparr>vel := 7\<rparr>) = PADDLE_H" by (simp add: Paddle_def)
  have y: "rect_y (Paddle_update ((Paddle 38 500)\<lparr>vel := 7\<rparr>) play_area) = 470"
    by (simp add: Paddle_update_def Paddle_def play_area_def config pg_int_def
        rect_top_def rect_bottom_def set_top_def set_bottom_def)
  from paddles_stay_in_play_area[of "(Paddle 38 500)\<lparr>vel := 7\<rparr>" ex_game]
    h y reachable_ex_game
  show ?thesis by simp
qed

end
